theory Spec2Isabelle
  imports Complex_Main
begin

unbundle bit_operations_syntax

section \<open>The QR scanner of \<^verbatim>\<open>qr_scanner.py\<close>\<close>

text \<open>
  The module has two functions, \<^verbatim>\<open>scan_qr_codes\<close> and \<^verbatim>\<open>test_camera\<close>. Both talk to
  the camera (cv2), the first also to the decoder (pyzbar), the wall clock, the caller's
  callback, the speaker and the display. The embedding takes what those calls return as
  input and gives what the functions do to the outside as a list of events, in the order
  of the calls.

  Conventions:
  \<^item> a time stamp (\<^verbatim>\<open>time.time()\<close>) is a \<open>real\<close>. Python subtracts two floats; for two
    stamps within a factor 2 of each other, and for a stamp and the initial \<open>0\<close>, the
    float difference is the exact one, so line 56 tests the difference of the reals;
  \<^item> a decoded payload is the text that \<^verbatim>\<open>obj.data.decode('utf-8')\<close> yields (line 50);
    payloads that are not UTF-8 text are outside the model;
  \<^item> \<^verbatim>\<open>except Exception\<close> (lines 67 and 118) is a case distinction on what the call in
    the \<^verbatim>\<open>try\<close> block did: \<open>Returns\<close> or \<open>Raises\<close>, the latter with the text of the
    exception. Calls outside a \<^verbatim>\<open>try\<close> block are taken to return;
  \<^item> the callback is \<open>None\<close> or a function (line 62 tests its truth value), given by
    what its call does on each payload; a session calls it at most once on a payload;
  \<^item> \<^verbatim>\<open>while True\<close> has no exit of its own. A session is given by the reads it has made
    so far; when none of them ends the loop, \<^verbatim>\<open>scan_qr_codes\<close> has not returned, which
    is the value \<open>None\<close>.
\<close>

subsection \<open>Data\<close>

datatype 'a outcome = Returns 'a | Raises string

type_synonym point = "int \<times> int"

text \<open>What \<^verbatim>\<open>cv2.polylines\<close> is given: the array of the points, or its convex hull.\<close>

datatype contour = Points_array "point list" | ConvexHull "point list"

text \<open>One constructor for each \<^verbatim>\<open>print\<close> of the module, with the values it formats.\<close>

datatype message =
    Could_not_open_camera
  | Camera_opened
  | Press_q_to_quit
  | Real_time_updates_enabled
  | Cant_receive_frame
  | New_QR_Code_Detected string
  | Calling_real_time_update string
  | Real_time_update_successful
  | Error_in_real_time_update string
  | Scanner_stopped nat
  | Error_probando_camara string

datatype event =
    Print message
  | Update_callback string
  | Play_beep
  | Polylines contour
  | Imshow
  | Release
  | DestroyAllWindows

text \<open>
  An element of \<^verbatim>\<open>decoded_objects\<close>, with the clock reading that line 54 gets while the
  element is being processed.
\<close>

record detection =
  data :: string
  polygon :: "point list"
  current_time :: real

text \<open>
  One turn of the \<^verbatim>\<open>while\<close> loop as the camera, the decoder and the keyboard give it:
  \<^verbatim>\<open>ret\<close> of \<^verbatim>\<open>cap.read()\<close>, the result of \<^verbatim>\<open>pyzbar.decode(frame)\<close> and the result of
  \<^verbatim>\<open>cv2.waitKey(1)\<close>.
\<close>

record capture =
  ret :: bool
  decoded_objects :: "detection list"
  wait_key :: int

text \<open>
  The camera of \<^verbatim>\<open>scan_qr_codes\<close>: whether it opened, and the reads of the session so
  far, one for each turn of the loop, in order.
\<close>

record camera =
  isOpened :: bool
  reads :: "capture list"

text \<open>The three local variables of \<^verbatim>\<open>scan_qr_codes\<close> (lines 34 to 36).\<close>

record scanner =
  scanned_codes :: "string set"
  last_scan_time :: real
  newly_scanned_data :: "string list"

type_synonym callback = "(string \<Rightarrow> unit outcome) option"

subsection \<open>\<^verbatim>\<open>scan_qr_codes\<close>\<close>

definition initial :: scanner where
  "initial = \<lparr>scanned_codes = {}, last_scan_time = 0, newly_scanned_data = []\<rparr>"

text \<open>Lines 62 to 68.\<close>

definition real_time_update :: "callback \<Rightarrow> string \<Rightarrow> event list" where
  "real_time_update update_callback d =
     (case update_callback of
        None \<Rightarrow> []
      | Some f \<Rightarrow>
          [Print (Calling_real_time_update (take 50 d)), Update_callback d] @
          (case f d of
             Returns _ \<Rightarrow> [Print Real_time_update_successful]
           | Raises e \<Rightarrow> [Print (Error_in_real_time_update e)]))"

text \<open>Lines 74 to 84.\<close>

definition bounding_box :: "point list \<Rightarrow> event" where
  "bounding_box points =
     (if length points > 4 then Polylines (ConvexHull points)
      else Polylines (Points_array points))"

text \<open>The body of the \<^verbatim>\<open>for\<close> loop, lines 50 to 84.\<close>

definition process_obj ::
  "callback \<Rightarrow> scanner \<Rightarrow> detection \<Rightarrow> scanner \<times> event list" where
  "process_obj update_callback st obj =
     (if data obj \<notin> scanned_codes st then
        if current_time obj - last_scan_time st > 2 then
          (\<lparr>scanned_codes = insert (data obj) (scanned_codes st),
            last_scan_time = current_time obj,
            newly_scanned_data = newly_scanned_data st @ [data obj]\<rparr>,
           [Print (New_QR_Code_Detected (data obj))] @
           real_time_update update_callback (data obj) @
           [Play_beep, bounding_box (polygon obj)])
        else (st, [bounding_box (polygon obj)])
      else (st, [bounding_box (polygon obj)]))"

text \<open>The \<^verbatim>\<open>for\<close> loop, lines 49 to 84.\<close>

fun for_decoded_objects ::
  "callback \<Rightarrow> scanner \<Rightarrow> detection list \<Rightarrow> scanner \<times> event list" where
  "for_decoded_objects cb st [] = (st, [])"
| "for_decoded_objects cb st (obj # objs) =
     (case process_obj cb st obj of
        (st', ev) \<Rightarrow>
          (case for_decoded_objects cb st' objs of
             (st'', evs) \<Rightarrow> (st'', ev @ evs)))"

text \<open>Line 94: \<^verbatim>\<open>cv2.waitKey(1) & 0xFF == ord('q')\<close>.\<close>

definition quit :: "capture \<Rightarrow> bool" where
  "quit c = (wait_key c AND 255 = 113)"

text \<open>
  The \<^verbatim>\<open>while\<close> loop, lines 39 to 95. It returns at the first read that fails (line 44)
  and after the first frame with the quit key (line 95); it has not returned when the reads
  made so far hold neither.
\<close>

fun while_True ::
  "callback \<Rightarrow> scanner \<Rightarrow> capture list \<Rightarrow> (scanner \<times> event list) option" where
  "while_True cb st [] = None"
| "while_True cb st (c # cs) =
     (if \<not> ret c then Some (st, [Print Cant_receive_frame])
      else
        (case for_decoded_objects cb st (decoded_objects c) of
           (st', ev) \<Rightarrow>
             if quit c then Some (st', ev @ [Imshow])
             else
               (case while_True cb st' cs of
                  None \<Rightarrow> None
                | Some (st'', evs) \<Rightarrow> Some (st'', ev @ [Imshow] @ evs))))"

definition scan_qr_codes ::
  "callback \<Rightarrow> camera \<Rightarrow> (string list \<times> event list) option" where
  "scan_qr_codes update_callback cap =
     (if \<not> isOpened cap then Some ([], [Print Could_not_open_camera])
      else
        (case while_True update_callback initial (reads cap) of
           None \<Rightarrow> None
         | Some (st, ev) \<Rightarrow>
             Some
               (newly_scanned_data st,
                [Print Camera_opened, Print Press_q_to_quit] @
                (case update_callback of
                   None \<Rightarrow> []
                 | Some _ \<Rightarrow> [Print Real_time_updates_enabled]) @
                ev @
                [Release, DestroyAllWindows,
                 Print (Scanner_stopped (length (newly_scanned_data st)))])))"

subsection \<open>\<^verbatim>\<open>test_camera\<close>\<close>

text \<open>
  What the four calls in the \<^verbatim>\<open>try\<close> block of \<^verbatim>\<open>test_camera\<close> do (lines 109 to 114);
  the frame of \<^verbatim>\<open>cap.read()\<close> is \<open>None\<close> or an image.
\<close>

record 'img probe =
  probe_VideoCapture :: "unit outcome"
  probe_isOpened :: "bool outcome"
  probe_read :: "(bool \<times> 'img option) outcome"
  probe_release :: "unit outcome"

definition test_camera :: "'img probe \<Rightarrow> bool \<times> event list" where
  "test_camera p =
     (case probe_VideoCapture p of
        Raises e \<Rightarrow> (False, [Print (Error_probando_camara e)])
      | Returns _ \<Rightarrow>
          (case probe_isOpened p of
             Raises e \<Rightarrow> (False, [Print (Error_probando_camara e)])
           | Returns opened \<Rightarrow>
               if \<not> opened then (False, [])
               else
                 (case probe_read p of
                    Raises e \<Rightarrow> (False, [Print (Error_probando_camara e)])
                  | Returns (ok, frame) \<Rightarrow>
                      (case probe_release p of
                         Raises e \<Rightarrow> (False, [Release, Print (Error_probando_camara e)])
                       | Returns _ \<Rightarrow> (ok \<and> frame \<noteq> None, [Release])))))"

subsection \<open>Observing a session\<close>

text \<open>
  A detection is accepted when the loop body appends its payload to
  \<^verbatim>\<open>newly_scanned_data\<close> (line 59).
\<close>

definition accepted :: "callback \<Rightarrow> scanner \<Rightarrow> detection \<Rightarrow> bool" where
  "accepted cb st obj =
     (newly_scanned_data (fst (process_obj cb st obj)) = newly_scanned_data st @ [data obj])"

text \<open>The verdicts on a run of detections, in order, from the scanner \<open>st\<close> on.\<close>

fun decisions :: "callback \<Rightarrow> scanner \<Rightarrow> detection list \<Rightarrow> bool list" where
  "decisions cb st [] = []"
| "decisions cb st (obj # objs) =
     accepted cb st obj # decisions cb (fst (process_obj cb st obj)) objs"

text \<open>The detections of such a run that were accepted.\<close>

definition acceptances :: "callback \<Rightarrow> scanner \<Rightarrow> detection list \<Rightarrow> detection list" where
  "acceptances cb st objs = map fst (filter snd (zip objs (decisions cb st objs)))"

text \<open>
  The detections that a session gets to, in order: those of every frame read, up to the
  first read that fails or the frame after which the quit key is seen.
\<close>

fun session_objects :: "capture list \<Rightarrow> detection list" where
  "session_objects [] = []"
| "session_objects (c # cs) =
     (if \<not> ret c then []
      else decoded_objects c @ (if quit c then [] else session_objects cs))"

fun is_Polylines :: "event \<Rightarrow> bool" where
  "is_Polylines (Polylines _) = True"
| "is_Polylines _ = False"

text \<open>
  The seen set holds exactly the payloads of \<^verbatim>\<open>newly_scanned_data\<close>, each once.
\<close>

definition seen_invariant :: "scanner \<Rightarrow> bool" where
  "seen_invariant st \<longleftrightarrow>
     set (newly_scanned_data st) = scanned_codes st \<and> distinct (newly_scanned_data st)"

subsection \<open>Example inputs\<close>

text \<open>
  Values for the concrete sessions below: two polygons, a detection of a payload with the
  square polygon at a clock reading, a read that succeeds with its detections and the key
  code of that turn (\<open>- 1\<close>: no key, \<open>113\<close>: the key q), a read that fails, a camera
  that opened, and a probe whose \<^verbatim>\<open>cv2.VideoCapture\<close> and \<^verbatim>\<open>release\<close> calls return.
\<close>

abbreviation square :: "point list" where
  "square \<equiv> [(0, 0), (9, 0), (9, 9), (0, 9)]"

abbreviation pentagon :: "point list" where
  "pentagon \<equiv> [(20, 0), (25, - 1), (29, 0), (29, 9), (20, 9)]"

abbreviation code_at :: "string \<Rightarrow> real \<Rightarrow> detection" where
  "code_at d t \<equiv> \<lparr>data = d, polygon = square, current_time = t\<rparr>"

abbreviation read_ok :: "detection list \<Rightarrow> int \<Rightarrow> capture" where
  "read_ok objs k \<equiv> \<lparr>ret = True, decoded_objects = objs, wait_key = k\<rparr>"

abbreviation read_failed :: capture where
  "read_failed \<equiv> \<lparr>ret = False, decoded_objects = [], wait_key = - 1\<rparr>"

abbreviation opened_camera :: "capture list \<Rightarrow> camera" where
  "opened_camera cs \<equiv> \<lparr>isOpened = True, reads = cs\<rparr>"

abbreviation probe_with :: "bool \<Rightarrow> (bool \<times> string option) outcome \<Rightarrow> string probe" where
  "probe_with is_open r \<equiv>
     \<lparr>probe_VideoCapture = Returns (), probe_isOpened = Returns is_open, probe_read = r,
      probe_release = Returns ()\<rparr>"

section \<open>Properties\<close>

subsection \<open>One detection\<close>

lemma process_obj_accept:
  "data obj \<notin> scanned_codes st \<Longrightarrow> current_time obj - last_scan_time st > 2 \<Longrightarrow>
   process_obj cb st obj =
     (\<lparr>scanned_codes = insert (data obj) (scanned_codes st),
       last_scan_time = current_time obj,
       newly_scanned_data = newly_scanned_data st @ [data obj]\<rparr>,
      [Print (New_QR_Code_Detected (data obj))] @ real_time_update cb (data obj) @
      [Play_beep, bounding_box (polygon obj)])"
  by (simp add: process_obj_def)

lemma process_obj_seen:
  "data obj \<in> scanned_codes st \<Longrightarrow> process_obj cb st obj = (st, [bounding_box (polygon obj)])"
  by (simp add: process_obj_def)

lemma process_obj_debounced:
  "\<not> current_time obj - last_scan_time st > 2 \<Longrightarrow>
   process_obj cb st obj = (st, [bounding_box (polygon obj)])"
  by (simp add: process_obj_def)

lemma accepted_iff:
  "accepted cb st obj \<longleftrightarrow>
   data obj \<notin> scanned_codes st \<and> current_time obj - last_scan_time st > 2"
  by (simp add: accepted_def process_obj_def)

subsection \<open>The loops\<close>

lemma fst_for_decoded_objects_Cons:
  "fst (for_decoded_objects cb st (obj # objs)) =
   fst (for_decoded_objects cb (fst (process_obj cb st obj)) objs)"
  by (simp add: case_prod_unfold)

lemma snd_for_decoded_objects_Cons:
  "snd (for_decoded_objects cb st (obj # objs)) =
   snd (process_obj cb st obj) @ snd (for_decoded_objects cb (fst (process_obj cb st obj)) objs)"
  by (simp add: case_prod_unfold)

lemma for_decoded_objects_append:
  "fst (for_decoded_objects cb st (xs @ ys)) =
   fst (for_decoded_objects cb (fst (for_decoded_objects cb st xs)) ys)"
  by (induction xs arbitrary: st)
    (simp_all add: fst_for_decoded_objects_Cons del: for_decoded_objects.simps(2))

lemma process_obj_scanned_codes_mono:
  "scanned_codes st \<subseteq> scanned_codes (fst (process_obj cb st obj))"
  by (auto simp: process_obj_def)

lemma process_obj_last_scan_time_mono:
  "last_scan_time st \<le> last_scan_time (fst (process_obj cb st obj))"
  by (simp add: process_obj_def)

lemma decisions_length: "length (decisions cb st objs) = length objs"
  by (induction objs arbitrary: st) simp_all

lemma decision_bounds:
  "j < length objs \<Longrightarrow> decisions cb st objs ! j \<Longrightarrow>
   data (objs ! j) \<notin> scanned_codes st \<and> last_scan_time st + 2 < current_time (objs ! j)"
proof (induction objs arbitrary: st j)
  case Nil
  then show ?case by simp
next
  case (Cons obj objs)
  show ?case
  proof (cases j)
    case 0
    with Cons.prems show ?thesis by (simp add: accepted_iff)
  next
    case (Suc k)
    with Cons.prems have k: "k < length objs"
      and d: "decisions cb (fst (process_obj cb st obj)) objs ! k" by simp_all
    from Cons.IH [OF k d]
    have "data (objs ! k) \<notin> scanned_codes (fst (process_obj cb st obj))"
      and "last_scan_time (fst (process_obj cb st obj)) + 2 < current_time (objs ! k)"
      by simp_all
    with process_obj_scanned_codes_mono [of st cb obj]
      process_obj_last_scan_time_mono [of st cb obj] Suc
    show ?thesis by auto
  qed
qed

lemma two_decisions:
  "i < j \<Longrightarrow> j < length objs \<Longrightarrow>
   decisions cb st objs ! i \<Longrightarrow> decisions cb st objs ! j \<Longrightarrow>
   data (objs ! i) \<noteq> data (objs ! j) \<and>
   current_time (objs ! i) + 2 < current_time (objs ! j)"
proof (induction objs arbitrary: st i j)
  case Nil
  then show ?case by simp
next
  case (Cons obj objs)
  from Cons.prems(1) obtain k where j: "j = Suc k" by (cases j) auto
  let ?st' = "fst (process_obj cb st obj)"
  from Cons.prems(2,4) j have k: "k < length objs" and dk: "decisions cb ?st' objs ! k"
    by simp_all
  show ?case
  proof (cases i)
    case 0
    with Cons.prems(3) have acc: "accepted cb st obj" by simp
    then have seen: "data obj \<in> scanned_codes ?st'"
      and last: "last_scan_time ?st' = current_time obj"
      by (simp_all add: accepted_iff process_obj_accept)
    from decision_bounds [OF k dk]
    have "data (objs ! k) \<notin> scanned_codes ?st'"
      and "last_scan_time ?st' + 2 < current_time (objs ! k)" by blast+
    with seen last
    have "data obj \<noteq> data (objs ! k) \<and> current_time obj + 2 < current_time (objs ! k)"
      by auto
    with 0 j show ?thesis by simp
  next
    case (Suc i')
    with Cons.prems(1,3) j have "i' < k" and "decisions cb ?st' objs ! i'" by simp_all
    from Cons.IH [OF this(1) k this(2) dk] Suc j show ?thesis by simp
  qed
qed

lemma newly_scanned_data_decisions:
  "newly_scanned_data (fst (for_decoded_objects cb st objs)) =
   newly_scanned_data st @ map (data \<circ> fst) (filter snd (zip objs (decisions cb st objs)))"
proof (induction objs arbitrary: st)
  case Nil
  then show ?case by simp
next
  case (Cons obj objs)
  let ?st' = "fst (process_obj cb st obj)"
  have step: "newly_scanned_data ?st' =
      newly_scanned_data st @ (if accepted cb st obj then [data obj] else [])"
    by (simp add: accepted_def process_obj_def)
  show ?case
    by (simp add: fst_for_decoded_objects_Cons Cons.IH [of ?st'] step
        del: for_decoded_objects.simps(2))
qed

lemma seen_invariant_initial: "seen_invariant initial"
  by (simp add: seen_invariant_def initial_def)

lemma seen_invariant_process_obj:
  "seen_invariant st \<Longrightarrow> seen_invariant (fst (process_obj cb st obj))"
  by (auto simp: seen_invariant_def process_obj_def)

lemma seen_invariant_for_decoded_objects:
  "seen_invariant st \<Longrightarrow> seen_invariant (fst (for_decoded_objects cb st objs))"
  by (induction objs arbitrary: st)
    (simp_all add: fst_for_decoded_objects_Cons seen_invariant_process_obj
      del: for_decoded_objects.simps(2))

lemma acceptances_Nil: "acceptances cb st [] = []"
  by (simp add: acceptances_def)

lemma acceptances_Cons:
  "acceptances cb st (obj # objs) =
   (if accepted cb st obj then [obj] else []) @ acceptances cb (fst (process_obj cb st obj)) objs"
  by (simp add: acceptances_def)

lemma decisions_append:
  "decisions cb st (xs @ ys) =
   decisions cb st xs @ decisions cb (fst (for_decoded_objects cb st xs)) ys"
  by (induction xs arbitrary: st)
    (simp_all add: fst_for_decoded_objects_Cons del: for_decoded_objects.simps(2))

lemma decisions_nth:
  assumes "i < length objs"
  shows "decisions cb st objs ! i =
    accepted cb (fst (for_decoded_objects cb st (take i objs))) (objs ! i)"
proof -
  from assms have "objs = take i objs @ objs ! i # drop (Suc i) objs"
    by (rule id_take_nth_drop)
  then have "decisions cb st objs =
      decisions cb st (take i objs) @
      accepted cb (fst (for_decoded_objects cb st (take i objs))) (objs ! i) #
      decisions cb (fst (process_obj cb (fst (for_decoded_objects cb st (take i objs))) (objs ! i)))
        (drop (Suc i) objs)"
    by (metis decisions.simps(2) decisions_append)
  moreover from assms have "length (decisions cb st (take i objs)) = i"
    by (simp add: decisions_length)
  ultimately show ?thesis
    by (metis nth_append_length)
qed

lemma scanned_codes_acceptances:
  "scanned_codes (fst (for_decoded_objects cb st objs)) =
   scanned_codes st \<union> data ` set (acceptances cb st objs)"
proof (induction objs arbitrary: st)
  case Nil
  then show ?case by (simp add: acceptances_Nil)
next
  case (Cons obj objs)
  have "scanned_codes (fst (process_obj cb st obj)) =
      scanned_codes st \<union> (if accepted cb st obj then {data obj} else {})"
    by (simp add: accepted_def process_obj_def)
  with Cons.IH [of "fst (process_obj cb st obj)"] show ?case
    by (simp add: fst_for_decoded_objects_Cons acceptances_Cons Un_assoc
        del: for_decoded_objects.simps(2))
qed

lemma last_scan_time_acceptances:
  "last_scan_time (fst (for_decoded_objects cb st objs)) =
   (if acceptances cb st objs = [] then last_scan_time st
    else current_time (last (acceptances cb st objs)))"
proof (induction objs arbitrary: st)
  case Nil
  then show ?case by (simp add: acceptances_Nil)
next
  case (Cons obj objs)
  have "last_scan_time (fst (process_obj cb st obj)) =
      (if accepted cb st obj then current_time obj else last_scan_time st)"
    by (simp add: accepted_def process_obj_def)
  with Cons.IH [of "fst (process_obj cb st obj)"] show ?case
    by (simp add: fst_for_decoded_objects_Cons acceptances_Cons
        del: for_decoded_objects.simps(2))
qed

lemma session_decision:
  assumes "i < length objs"
  shows "decisions cb initial objs ! i \<longleftrightarrow>
    data (objs ! i) \<notin> data ` set (acceptances cb initial (take i objs)) \<and>
    2 < current_time (objs ! i) -
      (if acceptances cb initial (take i objs) = [] then 0
       else current_time (last (acceptances cb initial (take i objs))))"
proof -
  have "scanned_codes initial = {}" and "last_scan_time initial = 0"
    by (simp_all add: initial_def)
  then show ?thesis
    by (simp add: decisions_nth [OF assms] accepted_iff scanned_codes_acceptances
        last_scan_time_acceptances)
qed

lemma process_obj_any_callback:
  "fst (process_obj cb st obj) = fst (process_obj cb' st obj)"
  by (simp add: process_obj_def)

lemma for_decoded_objects_any_callback:
  "fst (for_decoded_objects cb st objs) = fst (for_decoded_objects cb' st objs)"
proof (induction objs arbitrary: st)
  case Nil
  then show ?case by simp
next
  case (Cons obj objs)
  from Cons.IH [of "fst (process_obj cb' st obj)"] show ?case
    by (simp add: fst_for_decoded_objects_Cons process_obj_any_callback [of cb st obj cb']
        del: for_decoded_objects.simps(2))
qed

lemma real_time_update_no_Polylines: "filter is_Polylines (real_time_update cb d) = []"
  by (simp add: real_time_update_def split: option.splits outcome.splits)

lemma process_obj_Polylines:
  "filter is_Polylines (snd (process_obj cb st obj)) = [bounding_box (polygon obj)]"
  by (simp add: process_obj_def real_time_update_no_Polylines bounding_box_def)

lemma for_decoded_objects_Polylines:
  "filter is_Polylines (snd (for_decoded_objects cb st objs)) =
   map (\<lambda>obj. bounding_box (polygon obj)) objs"
  by (induction objs arbitrary: st)
    (simp_all add: snd_for_decoded_objects_Cons process_obj_Polylines
      del: for_decoded_objects.simps(2))

subsection \<open>The session\<close>

lemma while_True_Cons:
  "while_True cb st (c # cs) =
   (if \<not> ret c then Some (st, [Print Cant_receive_frame])
    else if quit c then
      Some (fst (for_decoded_objects cb st (decoded_objects c)),
            snd (for_decoded_objects cb st (decoded_objects c)) @ [Imshow])
    else
      map_option
        (\<lambda>r. (fst r, snd (for_decoded_objects cb st (decoded_objects c)) @ [Imshow] @ snd r))
        (while_True cb (fst (for_decoded_objects cb st (decoded_objects c))) cs))"
  by (simp add: case_prod_unfold split: option.splits)

lemma while_True_None_iff:
  "while_True cb st cs = None \<longleftrightarrow> (\<forall>c \<in> set cs. ret c \<and> \<not> quit c)"
  by (induction cs arbitrary: st) (simp_all add: while_True_Cons del: while_True.simps(2))

lemma while_True_Some:
  "while_True cb st cs = Some (st', ev) \<Longrightarrow>
   st' = fst (for_decoded_objects cb st (session_objects cs)) \<and>
   filter is_Polylines ev = map (\<lambda>obj. bounding_box (polygon obj)) (session_objects cs)"
proof (induction cs arbitrary: st st' ev)
  case Nil
  then show ?case by simp
next
  case (Cons c cs)
  let ?F = "for_decoded_objects cb st (decoded_objects c)"
  show ?case
  proof (cases "\<not> ret c \<or> quit c")
    case True
    with Cons.prems show ?thesis
      by (auto simp: while_True_Cons for_decoded_objects_Polylines simp del: while_True.simps(2))
  next
    case False
    with Cons.prems obtain r where r: "while_True cb (fst ?F) cs = Some r"
      and st': "st' = fst r" and ev: "ev = snd ?F @ [Imshow] @ snd r"
      by (auto simp: while_True_Cons simp del: while_True.simps(2))
    from r have "while_True cb (fst ?F) cs = Some (fst r, snd r)" by simp
    from Cons.IH [OF this] False st' ev show ?thesis
      by (simp add: for_decoded_objects_append for_decoded_objects_Polylines)
  qed
qed

lemma while_True_any_callback:
  "map_option fst (while_True cb st cs) = map_option fst (while_True cb' st cs)"
proof (induction cs arbitrary: st)
  case Nil
  then show ?case by simp
next
  case (Cons c cs)
  have F: "fst (for_decoded_objects cb st (decoded_objects c)) =
      fst (for_decoded_objects cb' st (decoded_objects c))"
    by (rule for_decoded_objects_any_callback)
  from Cons.IH [of "fst (for_decoded_objects cb' st (decoded_objects c))"] show ?case
    by (simp add: while_True_Cons F option.map_comp comp_def del: while_True.simps(2))
qed

lemma while_True_until_failed_read:
  "\<forall>p \<in> set pre. ret p \<and> \<not> quit p \<Longrightarrow> \<not> ret c \<Longrightarrow>
   \<exists>evs. while_True cb st (pre @ c # post) =
     Some (fst (for_decoded_objects cb st (concat (map decoded_objects pre))),
           evs @ [Print Cant_receive_frame])"
proof (induction pre arbitrary: st)
  case Nil
  then show ?case by simp
next
  case (Cons p pre)
  let ?F = "for_decoded_objects cb st (decoded_objects p)"
  from Cons.prems have "\<forall>p \<in> set pre. ret p \<and> \<not> quit p" by simp
  from Cons.IH [OF this Cons.prems(2), of "fst ?F"]
  obtain evs where "while_True cb (fst ?F) (pre @ c # post) =
      Some (fst (for_decoded_objects cb (fst ?F) (concat (map decoded_objects pre))),
            evs @ [Print Cant_receive_frame])"
    by blast
  with Cons.prems(1)
  have "while_True cb st ((p # pre) @ c # post) =
      Some (fst (for_decoded_objects cb st (concat (map decoded_objects (p # pre)))),
            (snd ?F @ [Imshow] @ evs) @ [Print Cant_receive_frame])"
    by (simp add: while_True_Cons for_decoded_objects_append del: while_True.simps(2))
  then show ?case by blast
qed

lemma scan_qr_codes_None_iff:
  "scan_qr_codes cb cap = None \<longleftrightarrow>
   isOpened cap \<and> (\<forall>c \<in> set (reads cap). ret c \<and> \<not> quit c)"
proof (cases "while_True cb initial (reads cap)")
  case None
  moreover from None have "\<forall>c \<in> set (reads cap). ret c \<and> \<not> quit c"
    by (simp add: while_True_None_iff)
  ultimately show ?thesis by (simp add: scan_qr_codes_def)
next
  case (Some r)
  moreover from Some have "\<not> (\<forall>c \<in> set (reads cap). ret c \<and> \<not> quit c)"
    using while_True_None_iff [of cb initial "reads cap"] by simp
  ultimately show ?thesis by (simp add: scan_qr_codes_def case_prod_unfold)
qed

lemma scan_qr_codes_Some:
  assumes "isOpened cap" and "scan_qr_codes cb cap = Some (codes, ev)"
  shows "codes =
      newly_scanned_data (fst (for_decoded_objects cb initial (session_objects (reads cap))))"
    and "filter is_Polylines ev =
      map (\<lambda>obj. bounding_box (polygon obj)) (session_objects (reads cap))"
proof -
  from assms obtain st ev' where w: "while_True cb initial (reads cap) = Some (st, ev')"
    and codes: "codes = newly_scanned_data st"
    and ev: "ev = [Print Camera_opened, Print Press_q_to_quit] @
      (case cb of None \<Rightarrow> [] | Some _ \<Rightarrow> [Print Real_time_updates_enabled]) @ ev' @
      [Release, DestroyAllWindows, Print (Scanner_stopped (length (newly_scanned_data st)))]"
    by (auto simp: scan_qr_codes_def split: option.splits)
  from while_True_Some [OF w] codes
  show "codes =
      newly_scanned_data (fst (for_decoded_objects cb initial (session_objects (reads cap))))"
    by simp
  from while_True_Some [OF w] ev
  show "filter is_Polylines ev =
      map (\<lambda>obj. bounding_box (polygon obj)) (session_objects (reads cap))"
    by (simp split: option.splits)
qed

lemma acceptances_distinct: "distinct (map data (acceptances cb initial objs))"
proof -
  from seen_invariant_for_decoded_objects [OF seen_invariant_initial, of cb objs]
  have "distinct (newly_scanned_data (fst (for_decoded_objects cb initial objs)))"
    by (simp add: seen_invariant_def)
  moreover have "newly_scanned_data initial = []"
    by (simp add: initial_def)
  ultimately show ?thesis
    by (simp add: newly_scanned_data_decisions acceptances_def)
qed

lemma scan_qr_codes_acceptances:
  assumes "isOpened cap" and "scan_qr_codes cb cap = Some (codes, ev)"
  shows "codes = map data (acceptances cb initial (session_objects (reads cap)))"
proof -
  have "newly_scanned_data initial = []"
    by (simp add: initial_def)
  with scan_qr_codes_Some(1) [OF assms] show ?thesis
    by (simp add: newly_scanned_data_decisions acceptances_def)
qed

lemma scan_qr_codes_distinct:
  assumes "scan_qr_codes cb cap = Some (codes, ev)"
  shows "distinct codes"
proof (cases "isOpened cap")
  case True
  from scan_qr_codes_acceptances [OF True assms] show ?thesis
    by (simp add: acceptances_distinct)
next
  case False
  with assms show ?thesis by (simp add: scan_qr_codes_def)
qed

lemma scan_qr_codes_any_callback:
  "map_option fst (scan_qr_codes cb cap) = map_option fst (scan_qr_codes cb' cap)"
proof (cases "isOpened cap")
  case True
  with while_True_any_callback [of cb initial "reads cap" cb'] show ?thesis
    by (cases "while_True cb initial (reads cap)"; cases "while_True cb' initial (reads cap)")
      (auto simp: scan_qr_codes_def)
next
  case False
  then show ?thesis by (simp add: scan_qr_codes_def)
qed

subsection \<open>The acceptance rule\<close>

text \<open>
  C1 (as amended). In a session, the detection at any place \<open>i\<close> of any frame is accepted
  if and only if its payload is not the payload of a detection accepted before it and
  strictly more than 2 seconds lie between its clock reading and that of the last accepted
  detection before it, or the initial 0 when there is none (line 56 tests \<^verbatim>\<open>> 2\<close>). In
  terms of the scanner: from every state, a detection is accepted if and only if its
  payload is not in the seen set and its clock reading exceeds the last scan time by more
  than 2; an accepted detection enters the seen set and the result list and sets the last
  scan time, a rejected one leaves the scanner as it was. At exactly 2 seconds the
  detection is rejected.
\<close>

theorem accepted_iff_unseen_and_over_2_seconds:
  assumes "objs = session_objects (reads cap)"
    and "i < length objs"
  shows "(decisions cb initial objs ! i \<longleftrightarrow>
      data (objs ! i) \<notin> data ` set (acceptances cb initial (take i objs)) \<and>
      2 < current_time (objs ! i) -
        (if acceptances cb initial (take i objs) = [] then 0
         else current_time (last (acceptances cb initial (take i objs))))) \<and>
    (accepted cb st obj \<longleftrightarrow>
      data obj \<notin> scanned_codes st \<and> 2 < current_time obj - last_scan_time st) \<and>
    (accepted cb st obj \<longrightarrow>
      fst (process_obj cb st obj) =
        \<lparr>scanned_codes = insert (data obj) (scanned_codes st),
         last_scan_time = current_time obj,
         newly_scanned_data = newly_scanned_data st @ [data obj]\<rparr>) \<and>
    (\<not> accepted cb st obj \<longrightarrow> fst (process_obj cb st obj) = st)"
proof (intro conjI impI)
  from assms(2) show "decisions cb initial objs ! i \<longleftrightarrow>
      data (objs ! i) \<notin> data ` set (acceptances cb initial (take i objs)) \<and>
      2 < current_time (objs ! i) -
        (if acceptances cb initial (take i objs) = [] then 0
         else current_time (last (acceptances cb initial (take i objs))))"
    by (rule session_decision)
  show "accepted cb st obj \<longleftrightarrow>
      data obj \<notin> scanned_codes st \<and> 2 < current_time obj - last_scan_time st"
    by (rule accepted_iff)
  show "fst (process_obj cb st obj) =
      \<lparr>scanned_codes = insert (data obj) (scanned_codes st),
       last_scan_time = current_time obj,
       newly_scanned_data = newly_scanned_data st @ [data obj]\<rparr>" if "accepted cb st obj"
    using that by (simp add: accepted_iff process_obj_accept)
  show "fst (process_obj cb st obj) = st" if "\<not> accepted cb st obj"
  proof (cases "data obj \<in> scanned_codes st")
    case True
    then show ?thesis by (simp add: process_obj_seen)
  next
    case False
    with that have "\<not> 2 < current_time obj - last_scan_time st"
      by (simp add: accepted_iff)
    then show ?thesis by (simp add: process_obj_debounced)
  qed
qed

theorem accepted_iff_unseen_and_over_2_seconds_witness:
  "session_objects
     (reads (opened_camera
        [read_ok [code_at ''A'' 1700000000, code_at ''B'' 1700000001] (- 1),
         read_ok [code_at ''B'' 1700000003] 113])) =
     [code_at ''A'' 1700000000, code_at ''B'' 1700000001, code_at ''B'' 1700000003] \<and>
   decisions None initial
     [code_at ''A'' 1700000000, code_at ''B'' 1700000001, code_at ''B'' 1700000003] =
     [True, False, True] \<and>
   acceptances None initial [code_at ''A'' 1700000000, code_at ''B'' 1700000001] =
     [code_at ''A'' 1700000000] \<and>
   accepted None initial (code_at ''A'' 1700000000) \<and>
   \<not> accepted None
        \<lparr>scanned_codes = {''A''}, last_scan_time = 1700000000, newly_scanned_data = [''A'']\<rparr>
        (code_at ''B'' 1700000001)"
  using
    accepted_iff_unseen_and_over_2_seconds
      [of "[code_at ''A'' 1700000000, code_at ''B'' 1700000001, code_at ''B'' 1700000003]"
          "opened_camera
             [read_ok [code_at ''A'' 1700000000, code_at ''B'' 1700000001] (- 1),
              read_ok [code_at ''B'' 1700000003] 113]"
          2 None initial "code_at ''A'' 1700000000"]
    accepted_iff_unseen_and_over_2_seconds
      [of "[code_at ''A'' 1700000000, code_at ''B'' 1700000001, code_at ''B'' 1700000003]"
          "opened_camera
             [read_ok [code_at ''A'' 1700000000, code_at ''B'' 1700000001] (- 1),
              read_ok [code_at ''B'' 1700000003] 113]"
          1 None
          "\<lparr>scanned_codes = {''A''}, last_scan_time = 1700000000,
            newly_scanned_data = [''A'']\<rparr>"
          "code_at ''B'' 1700000001"]
  by (simp add: initial_def process_obj_def accepted_def acceptances_def quit_def)

text \<open>
  C1 as stated fails: the session reads a frame with code A at 1700000000 and a frame with
  code B at 1700000002. B is not in the seen set and 2 seconds have elapsed since A was
  accepted, yet B is not accepted and the session returns A alone.
\<close>

theorem at_least_2_seconds_counterexample:
  "fst (for_decoded_objects None initial [code_at ''A'' 1700000000]) =
     \<lparr>scanned_codes = {''A''}, last_scan_time = 1700000000, newly_scanned_data = [''A'']\<rparr> \<and>
   ''B'' \<notin> {''A''} \<and>
   (1700000002 :: real) - 1700000000 \<ge> 2 \<and>
   \<not> accepted None
        \<lparr>scanned_codes = {''A''}, last_scan_time = 1700000000, newly_scanned_data = [''A'']\<rparr>
        (code_at ''B'' 1700000002) \<and>
   decisions None initial [code_at ''A'' 1700000000, code_at ''B'' 1700000002] =
     [True, False] \<and>
   map_option fst
     (scan_qr_codes None
        (opened_camera
           [read_ok [code_at ''A'' 1700000000] (- 1),
            read_ok [code_at ''B'' 1700000002] 113])) = Some [''A'']"
  by (simp add: scan_qr_codes_def initial_def process_obj_def accepted_def quit_def)

subsection \<open>The seen set\<close>

text \<open>
  C2. Once a code has been accepted, no later detection of it in the same session is
  accepted: the list that \<^verbatim>\<open>scan_qr_codes\<close> returns, which holds the payloads of the
  accepted detections in order, has no code twice, and neither have the payloads accepted
  in a session that is still running; neither a step nor a frame takes
  a code out of the seen set; an accepted code is in the seen set after its step; a code
  in the seen set is not accepted; and so, of two detections of one code in a session, the
  later one is rejected whenever the earlier one was accepted.
\<close>

theorem accepted_code_never_accepted_again:
  "(\<forall>codes ev. scan_qr_codes cb cap = Some (codes, ev) \<longrightarrow>
      distinct codes \<and>
      (isOpened cap \<longrightarrow>
         codes = map data (acceptances cb initial (session_objects (reads cap))))) \<and>
   distinct (map data (acceptances cb initial (session_objects (reads cap)))) \<and>
   scanned_codes st \<subseteq> scanned_codes (fst (process_obj cb st obj)) \<and>
   scanned_codes st \<subseteq> scanned_codes (fst (for_decoded_objects cb st objs)) \<and>
   (accepted cb st obj \<longrightarrow> data obj \<in> scanned_codes (fst (process_obj cb st obj))) \<and>
   (data obj \<in> scanned_codes st \<longrightarrow> \<not> accepted cb st obj) \<and>
   (\<forall>i j. i < j \<and> j < length (session_objects (reads cap)) \<and>
      data (session_objects (reads cap) ! i) = data (session_objects (reads cap) ! j) \<and>
      decisions cb initial (session_objects (reads cap)) ! i \<longrightarrow>
      \<not> decisions cb initial (session_objects (reads cap)) ! j)"
proof (intro conjI allI impI)
  fix codes ev
  assume r: "scan_qr_codes cb cap = Some (codes, ev)"
  then show "distinct codes"
    by (rule scan_qr_codes_distinct)
  show "codes = map data (acceptances cb initial (session_objects (reads cap)))"
    if "isOpened cap"
    using that r by (rule scan_qr_codes_acceptances)
next
  show "distinct (map data (acceptances cb initial (session_objects (reads cap))))"
    by (rule acceptances_distinct)
  show "scanned_codes st \<subseteq> scanned_codes (fst (process_obj cb st obj))"
    by (rule process_obj_scanned_codes_mono)
  show "scanned_codes st \<subseteq> scanned_codes (fst (for_decoded_objects cb st objs))"
    by (simp add: scanned_codes_acceptances)
  show "data obj \<in> scanned_codes (fst (process_obj cb st obj))" if "accepted cb st obj"
    using that by (simp add: accepted_iff process_obj_accept)
  show "\<not> accepted cb st obj" if "data obj \<in> scanned_codes st"
    using that by (simp add: accepted_iff)
next
  fix i j
  let ?objs = "session_objects (reads cap)"
  assume h: "i < j \<and> j < length ?objs \<and> data (?objs ! i) = data (?objs ! j) \<and>
    decisions cb initial ?objs ! i"
  show "\<not> decisions cb initial ?objs ! j"
  proof
    assume "decisions cb initial ?objs ! j"
    with h two_decisions [of i j ?objs cb initial]
    show False by simp
  qed
qed

theorem accepted_code_never_accepted_again_witness:
  "session_objects
     (reads (opened_camera
        [read_ok [code_at ''A'' 1700000000] (- 1), read_ok [code_at ''A'' 1700000005] 113])) =
     [code_at ''A'' 1700000000, code_at ''A'' 1700000005] \<and>
   decisions None initial [code_at ''A'' 1700000000, code_at ''A'' 1700000005] =
     [True, False] \<and>
   map_option fst
     (scan_qr_codes None
        (opened_camera
           [read_ok [code_at ''A'' 1700000000] (- 1),
            read_ok [code_at ''A'' 1700000005] 113])) = Some [''A'']"
  using
    accepted_code_never_accepted_again
      [of None
          "opened_camera
             [read_ok [code_at ''A'' 1700000000] (- 1), read_ok [code_at ''A'' 1700000005] 113]"
          initial "code_at ''A'' 1700000000" "[code_at ''A'' 1700000000]"]
  by (simp add: scan_qr_codes_def initial_def process_obj_def accepted_def acceptances_def
      quit_def)

subsection \<open>The debounce window\<close>

text \<open>
  C3. The clock readings of any two detections accepted in one session differ by at least
  2 seconds, whatever their payloads. There is one time stamp for all codes: an acceptance
  sets it to the clock reading of the accepted detection, and until more than 2 seconds
  have passed since then every detection is rejected, of whatever payload.
\<close>

theorem accepted_time_stamps_2_seconds_apart:
  "(\<forall>i j. i < length (session_objects (reads cap)) \<and>
      j < length (session_objects (reads cap)) \<and> i \<noteq> j \<and>
      decisions cb initial (session_objects (reads cap)) ! i \<and>
      decisions cb initial (session_objects (reads cap)) ! j \<longrightarrow>
      2 \<le> \<bar>current_time (session_objects (reads cap) ! i) -
             current_time (session_objects (reads cap) ! j)\<bar>) \<and>
   (accepted cb st obj \<longrightarrow>
      last_scan_time (fst (process_obj cb st obj)) = current_time obj \<and>
      (\<forall>obj'. current_time obj' - current_time obj \<le> 2 \<longrightarrow>
         \<not> accepted cb (fst (process_obj cb st obj)) obj'))"
proof (intro conjI allI impI)
  fix i j
  let ?objs = "session_objects (reads cap)"
  assume h: "i < length ?objs \<and> j < length ?objs \<and> i \<noteq> j \<and>
    decisions cb initial ?objs ! i \<and> decisions cb initial ?objs ! j"
  then consider "i < j" | "j < i" by linarith
  then show "2 \<le> \<bar>current_time (?objs ! i) - current_time (?objs ! j)\<bar>"
  proof cases
    case 1
    with h two_decisions [of i j ?objs cb initial]
    have "current_time (?objs ! i) + 2 < current_time (?objs ! j)" by simp
    then show ?thesis by simp
  next
    case 2
    with h two_decisions [of j i ?objs cb initial]
    have "current_time (?objs ! j) + 2 < current_time (?objs ! i)" by simp
    then show ?thesis by simp
  qed
next
  assume acc: "accepted cb st obj"
  then show last: "last_scan_time (fst (process_obj cb st obj)) = current_time obj"
    by (simp add: accepted_iff process_obj_accept)
  fix obj' :: detection
  assume "current_time obj' - current_time obj \<le> 2"
  with last show "\<not> accepted cb (fst (process_obj cb st obj)) obj'"
    by (simp add: accepted_iff)
qed

theorem accepted_time_stamps_2_seconds_apart_witness:
  "decisions None initial
     (session_objects
        (reads (opened_camera
           [read_ok [code_at ''A'' 1700000000, code_at ''B'' 1700000000.5] (- 1),
            read_ok [code_at ''B'' 1700000003] (- 1)]))) = [True, False, True] \<and>
   (2 :: real) \<le> \<bar>1700000000 - 1700000003\<bar> \<and>
   \<not> accepted None (fst (process_obj None initial (code_at ''A'' 1700000000)))
        (code_at ''B'' 1700000000.5)"
  using
    accepted_time_stamps_2_seconds_apart
      [of "opened_camera
             [read_ok [code_at ''A'' 1700000000, code_at ''B'' 1700000000.5] (- 1),
              read_ok [code_at ''B'' 1700000003] (- 1)]"
          None initial "code_at ''A'' 1700000000"]
  by (simp add: initial_def process_obj_def accepted_def quit_def)

text \<open>
  C9. The last scan time starts at 0, so the first detection of a session, if the clock
  reads more than 2 when it is processed, is accepted: its payload is the first element of
  the list that \<^verbatim>\<open>scan_qr_codes\<close> returns when the session ends.
\<close>

theorem first_detection_accepted:
  assumes "isOpened cap"
    and "session_objects (reads cap) = obj # objs"
    and "2 < current_time obj"
  shows "accepted cb initial obj \<and>
    (\<forall>codes ev. scan_qr_codes cb cap = Some (codes, ev) \<longrightarrow>
       (\<exists>rest. codes = data obj # rest))"
proof (intro conjI allI impI)
  from assms(3) show acc: "accepted cb initial obj"
    by (simp add: accepted_iff initial_def)
  fix codes ev
  assume "scan_qr_codes cb cap = Some (codes, ev)"
  with assms(1) have "codes = map data (acceptances cb initial (session_objects (reads cap)))"
    by (rule scan_qr_codes_acceptances)
  with assms(2) acc show "\<exists>rest. codes = data obj # rest"
    by (simp add: acceptances_Cons)
qed

theorem first_detection_accepted_witness:
  "session_objects
     (reads (opened_camera [read_ok [] (- 1), read_ok [code_at ''A'' 1700000000] 113])) =
     [code_at ''A'' 1700000000] \<and>
   accepted None initial (code_at ''A'' 1700000000) \<and>
   map_option fst
     (scan_qr_codes None
        (opened_camera [read_ok [] (- 1), read_ok [code_at ''A'' 1700000000] 113])) =
     Some [''A'']"
  using
    first_detection_accepted
      [of "opened_camera [read_ok [] (- 1), read_ok [code_at ''A'' 1700000000] 113]"
          "code_at ''A'' 1700000000" "[]" None]
  by (simp add: scan_qr_codes_def initial_def process_obj_def quit_def)

text \<open>
  C10. A detection whose payload is not in the seen set and that is rejected because no more
  than 2 seconds have passed leaves the scanner as it was: the seen set, the result list
  and the time stamp are unchanged, the callback is not called and no beep is played; the
  step only draws the bounding box. A later detection of the same payload, once more than
  2 seconds have passed, is accepted.
\<close>

theorem debounced_detection_changes_nothing:
  assumes "data obj \<notin> scanned_codes st"
    and "\<not> 2 < current_time obj - last_scan_time st"
  shows "process_obj cb st obj = (st, [bounding_box (polygon obj)]) \<and>
    Play_beep \<notin> set (snd (process_obj cb st obj)) \<and>
    Update_callback (data obj) \<notin> set (snd (process_obj cb st obj)) \<and>
    (\<forall>obj'. data obj' = data obj \<and> 2 < current_time obj' - last_scan_time st \<longrightarrow>
       accepted cb (fst (process_obj cb st obj)) obj')"
proof -
  from assms(2) have step: "process_obj cb st obj = (st, [bounding_box (polygon obj)])"
    by (rule process_obj_debounced)
  moreover have "Play_beep \<noteq> bounding_box (polygon obj)"
    and "Update_callback (data obj) \<noteq> bounding_box (polygon obj)"
    by (simp_all add: bounding_box_def)
  moreover have "accepted cb st obj'"
    if "data obj' = data obj \<and> 2 < current_time obj' - last_scan_time st" for obj'
    using that assms(1) by (simp add: accepted_iff)
  ultimately show ?thesis by simp
qed

theorem debounced_detection_changes_nothing_witness:
  "process_obj None
     \<lparr>scanned_codes = {''A''}, last_scan_time = 1700000000, newly_scanned_data = [''A'']\<rparr>
     (code_at ''B'' 1700000001) =
     (\<lparr>scanned_codes = {''A''}, last_scan_time = 1700000000, newly_scanned_data = [''A'']\<rparr>,
      [Polylines (Points_array square)]) \<and>
   accepted None
     \<lparr>scanned_codes = {''A''}, last_scan_time = 1700000000, newly_scanned_data = [''A'']\<rparr>
     (code_at ''B'' 1700000003)"
  using
    debounced_detection_changes_nothing
      [of "code_at ''B'' 1700000001"
          "\<lparr>scanned_codes = {''A''}, last_scan_time = 1700000000,
            newly_scanned_data = [''A'']\<rparr>"
          None]
  by (simp add: bounding_box_def accepted_def process_obj_def)

subsection \<open>The overlay\<close>

text \<open>
  C8. \<^verbatim>\<open>cv2.polylines\<close> is called once for every detection, accepted or not: with the
  convex hull of the polygon when the polygon has more than 4 points, with the polygon
  itself otherwise. So it is for the whole of a session that returns, for the \<^verbatim>\<open>for\<close>
  loop over the detections of any frame from any scanner state, and for each single step,
  where the call is the last event.
\<close>

theorem polygon_drawn_for_every_detection:
  "(\<forall>codes ev. isOpened cap \<and> scan_qr_codes cb cap = Some (codes, ev) \<longrightarrow>
      filter is_Polylines ev =
      map (\<lambda>obj. Polylines (if 4 < length (polygon obj) then ConvexHull (polygon obj)
                             else Points_array (polygon obj)))
        (session_objects (reads cap))) \<and>
   filter is_Polylines (snd (for_decoded_objects cb st objs)) =
     map (\<lambda>obj. Polylines (if 4 < length (polygon obj) then ConvexHull (polygon obj)
                            else Points_array (polygon obj)))
       objs \<and>
   filter is_Polylines (snd (process_obj cb st obj)) =
     [Polylines (if 4 < length (polygon obj) then ConvexHull (polygon obj)
                 else Points_array (polygon obj))] \<and>
   last (snd (process_obj cb st obj)) =
     Polylines (if 4 < length (polygon obj) then ConvexHull (polygon obj)
                else Points_array (polygon obj))"
proof (intro conjI allI impI)
  have box: "bounding_box ps =
      Polylines (if 4 < length ps then ConvexHull ps else Points_array ps)" for ps
    by (simp add: bounding_box_def)
  show "filter is_Polylines ev =
      map (\<lambda>obj. Polylines (if 4 < length (polygon obj) then ConvexHull (polygon obj)
                             else Points_array (polygon obj)))
        (session_objects (reads cap))"
    if "isOpened cap \<and> scan_qr_codes cb cap = Some (codes, ev)" for codes ev
    using that scan_qr_codes_Some(2) [of cap cb codes ev] by (simp only: box)
  show "filter is_Polylines (snd (for_decoded_objects cb st objs)) =
      map (\<lambda>obj. Polylines (if 4 < length (polygon obj) then ConvexHull (polygon obj)
                             else Points_array (polygon obj)))
        objs"
    using for_decoded_objects_Polylines [of cb st objs] by (simp only: box)
  show "filter is_Polylines (snd (process_obj cb st obj)) =
      [Polylines (if 4 < length (polygon obj) then ConvexHull (polygon obj)
                  else Points_array (polygon obj))]"
    using process_obj_Polylines [of cb st obj] by (simp only: box)
  have "last (snd (process_obj cb st obj)) = bounding_box (polygon obj)"
    by (simp add: process_obj_def)
  then show "last (snd (process_obj cb st obj)) =
      Polylines (if 4 < length (polygon obj) then ConvexHull (polygon obj)
                 else Points_array (polygon obj))"
    by (simp only: box)
qed

theorem polygon_drawn_for_every_detection_witness:
  "map_option (filter is_Polylines \<circ> snd)
     (scan_qr_codes None
        (opened_camera
           [read_ok
              [code_at ''A'' 1700000000,
               \<lparr>data = ''B'', polygon = pentagon, current_time = 1700000000.5\<rparr>]
              (- 1),
            read_ok [code_at ''A'' 1700000001] 113])) =
     Some
       [Polylines (Points_array square), Polylines (ConvexHull pentagon),
        Polylines (Points_array square)]"
  using
    polygon_drawn_for_every_detection
      [of "opened_camera
             [read_ok
                [code_at ''A'' 1700000000,
                 \<lparr>data = ''B'', polygon = pentagon, current_time = 1700000000.5\<rparr>]
                (- 1),
              read_ok [code_at ''A'' 1700000001] 113]"
          None initial "[]" "code_at ''A'' 1700000000"]
  by (simp add: scan_qr_codes_def initial_def process_obj_def quit_def bounding_box_def)

subsection \<open>The callback\<close>

text \<open>
  C4. When the callback raises on a code X that is being accepted, the handler of line 67
  prints the error and the step goes on as after a call that returns: X is in the seen set
  and at the end of the result list, the beep is played, the time stamp is set and the
  bounding box is drawn. The step yields a scanner, so the loop goes on: a later detection
  of another unseen code Y, more than 2 seconds after X, is accepted, and the result list
  then ends with X and Y. What the callback does has no effect on the scanner: a session
  returns the list it returns without a callback.
\<close>

theorem callback_exception_caught:
  assumes "f (data x) = Raises e"
    and "data x \<notin> scanned_codes st"
    and "2 < current_time x - last_scan_time st"
  shows "process_obj (Some f) st x =
      (\<lparr>scanned_codes = insert (data x) (scanned_codes st),
        last_scan_time = current_time x,
        newly_scanned_data = newly_scanned_data st @ [data x]\<rparr>,
       [Print (New_QR_Code_Detected (data x)),
        Print (Calling_real_time_update (take 50 (data x))),
        Update_callback (data x),
        Print (Error_in_real_time_update e),
        Play_beep,
        bounding_box (polygon x)]) \<and>
    fst (process_obj (Some f) st x) = fst (process_obj None st x) \<and>
    map_option fst (scan_qr_codes (Some f) cap) = map_option fst (scan_qr_codes None cap) \<and>
    (\<forall>y. data y \<notin> insert (data x) (scanned_codes st) \<and>
       2 < current_time y - current_time x \<longrightarrow>
       accepted (Some f) (fst (process_obj (Some f) st x)) y \<and>
       newly_scanned_data (fst (for_decoded_objects (Some f) st [x, y])) =
       newly_scanned_data st @ [data x, data y])"
proof (intro conjI allI impI)
  let ?st' = "\<lparr>scanned_codes = insert (data x) (scanned_codes st),
    last_scan_time = current_time x,
    newly_scanned_data = newly_scanned_data st @ [data x]\<rparr>"
  from assms show step: "process_obj (Some f) st x =
      (?st',
       [Print (New_QR_Code_Detected (data x)),
        Print (Calling_real_time_update (take 50 (data x))),
        Update_callback (data x),
        Print (Error_in_real_time_update e),
        Play_beep,
        bounding_box (polygon x)])"
    by (simp add: process_obj_accept real_time_update_def)
  show "fst (process_obj (Some f) st x) = fst (process_obj None st x)"
    by (rule process_obj_any_callback)
  show "map_option fst (scan_qr_codes (Some f) cap) = map_option fst (scan_qr_codes None cap)"
    by (rule scan_qr_codes_any_callback)
  fix y :: detection
  assume y: "data y \<notin> insert (data x) (scanned_codes st) \<and>
    2 < current_time y - current_time x"
  with step show acc: "accepted (Some f) (fst (process_obj (Some f) st x)) y"
    by (simp add: accepted_iff)
  have "newly_scanned_data (fst (for_decoded_objects (Some f) st [x, y])) =
      newly_scanned_data (fst (process_obj (Some f) ?st' y))"
    by (simp add: step case_prod_unfold)
  also from acc step have "\<dots> = newly_scanned_data ?st' @ [data y]"
    by (simp add: accepted_def)
  finally show "newly_scanned_data (fst (for_decoded_objects (Some f) st [x, y])) =
      newly_scanned_data st @ [data x, data y]"
    by simp
qed

theorem callback_exception_caught_witness:
  "scan_qr_codes (Some (\<lambda>d. if d = ''X'' then Raises ''boom'' else Returns ()))
     (opened_camera
        [read_ok [code_at ''X'' 1700000000] (- 1), read_ok [code_at ''Y'' 1700000003] 113]) =
     Some
       ([''X'', ''Y''],
        [Print Camera_opened, Print Press_q_to_quit, Print Real_time_updates_enabled,
         Print (New_QR_Code_Detected ''X''), Print (Calling_real_time_update ''X''),
         Update_callback ''X'', Print (Error_in_real_time_update ''boom''), Play_beep,
         Polylines (Points_array square), Imshow,
         Print (New_QR_Code_Detected ''Y''), Print (Calling_real_time_update ''Y''),
         Update_callback ''Y'', Print Real_time_update_successful, Play_beep,
         Polylines (Points_array square), Imshow,
         Release, DestroyAllWindows, Print (Scanner_stopped 2)])"
  using
    callback_exception_caught
      [of "\<lambda>d. if d = ''X'' then Raises ''boom'' else Returns ()"
          "code_at ''X'' 1700000000" "''boom''" initial
          "opened_camera
             [read_ok [code_at ''X'' 1700000000] (- 1),
              read_ok [code_at ''Y'' 1700000003] 113]"]
  by (simp add: scan_qr_codes_def initial_def process_obj_def quit_def bounding_box_def
      real_time_update_def)

subsection \<open>Camera failures\<close>

lemma test_camera_True_iff:
  "fst (test_camera p) \<longleftrightarrow>
   probe_VideoCapture p = Returns () \<and> probe_isOpened p = Returns True \<and>
   (\<exists>img. probe_read p = Returns (True, Some img)) \<and> probe_release p = Returns ()"
  by (simp add: test_camera_def split: outcome.splits prod.splits)

lemma test_camera_Release_iff:
  "Release \<in> set (snd (test_camera p)) \<longleftrightarrow>
   probe_VideoCapture p = Returns () \<and> probe_isOpened p = Returns True \<and>
   (\<exists>r. probe_read p = Returns r)"
  by (simp add: test_camera_def split: outcome.splits prod.splits)

text \<open>
  C5 (as amended). A camera that does not open makes \<^verbatim>\<open>scan_qr_codes\<close> return the empty
  list at once. A read that fails ends the loop: \<^verbatim>\<open>scan_qr_codes\<close> releases the camera and
  returns the codes accepted in the frames read before, which is the empty list when the
  first read fails. \<^verbatim>\<open>test_camera\<close> returns \<open>False\<close> when the camera does not open and
  when the read reports failure. Each of these is a result, not an exception.
  \<^verbatim>\<open>scan_qr_codes\<close> has not returned only while the camera is open and every read so far
  gave a frame without the quit key.
\<close>

theorem camera_failure_results:
  "(\<not> isOpened cap \<longrightarrow> scan_qr_codes cb cap = Some ([], [Print Could_not_open_camera])) \<and>
   (scan_qr_codes cb cap = None \<longleftrightarrow>
      isOpened cap \<and> (\<forall>c \<in> set (reads cap). ret c \<and> \<not> quit c)) \<and>
   (isOpened cap \<and> reads cap = pre @ c # post \<and> (\<forall>p \<in> set pre. ret p \<and> \<not> quit p) \<and>
    \<not> ret c \<longrightarrow>
      (\<exists>codes evs.
         scan_qr_codes cb cap =
           Some (codes,
                 evs @ [Print Cant_receive_frame, Release, DestroyAllWindows,
                        Print (Scanner_stopped (length codes))]) \<and>
         codes =
           newly_scanned_data
             (fst (for_decoded_objects cb initial (concat (map decoded_objects pre)))))) \<and>
   (isOpened cap \<and> reads cap = c # post \<and> \<not> ret c \<longrightarrow>
      map_option fst (scan_qr_codes cb cap) = Some []) \<and>
   (probe_isOpened p = Returns False \<longrightarrow> \<not> fst (test_camera p)) \<and>
   (probe_read p = Returns (False, frame) \<longrightarrow> \<not> fst (test_camera p))"
proof (intro conjI impI)
  show "scan_qr_codes cb cap = Some ([], [Print Could_not_open_camera])" if "\<not> isOpened cap"
    using that by (simp add: scan_qr_codes_def)
  show "scan_qr_codes cb cap = None \<longleftrightarrow>
      isOpened cap \<and> (\<forall>c \<in> set (reads cap). ret c \<and> \<not> quit c)"
    by (rule scan_qr_codes_None_iff)
  show "\<not> fst (test_camera p)" if "probe_isOpened p = Returns False"
    using that by (simp add: test_camera_True_iff)
  show "\<not> fst (test_camera p)" if "probe_read p = Returns (False, frame)"
    using that by (simp add: test_camera_True_iff)
  show "map_option fst (scan_qr_codes cb cap) = Some []"
    if "isOpened cap \<and> reads cap = c # post \<and> \<not> ret c"
    using that by (simp add: scan_qr_codes_def initial_def)
next
  assume h: "isOpened cap \<and> reads cap = pre @ c # post \<and>
    (\<forall>p \<in> set pre. ret p \<and> \<not> quit p) \<and> \<not> ret c"
  let ?st = "fst (for_decoded_objects cb initial (concat (map decoded_objects pre)))"
  let ?start = "[Print Camera_opened, Print Press_q_to_quit] @
    (case cb of None \<Rightarrow> [] | Some _ \<Rightarrow> [Print Real_time_updates_enabled])"
  from h while_True_until_failed_read [of pre c cb initial post]
  obtain evs where "while_True cb initial (reads cap) =
      Some (?st, evs @ [Print Cant_receive_frame])"
    by auto
  with h have "scan_qr_codes cb cap =
      Some (newly_scanned_data ?st,
            (?start @ evs) @ [Print Cant_receive_frame, Release, DestroyAllWindows,
               Print (Scanner_stopped (length (newly_scanned_data ?st)))])"
    by (simp add: scan_qr_codes_def)
  then show "\<exists>codes evs.
      scan_qr_codes cb cap =
        Some (codes,
              evs @ [Print Cant_receive_frame, Release, DestroyAllWindows,
                     Print (Scanner_stopped (length codes))]) \<and>
      codes = newly_scanned_data ?st"
    by blast
qed

theorem camera_failure_results_witness:
  "scan_qr_codes None \<lparr>isOpened = False, reads = []\<rparr> =
     Some ([], [Print Could_not_open_camera]) \<and>
   scan_qr_codes None (opened_camera [read_ok [code_at ''A'' 1700000000] (- 1), read_failed]) =
     Some
       ([''A''],
        [Print Camera_opened, Print Press_q_to_quit, Print (New_QR_Code_Detected ''A''),
         Play_beep, Polylines (Points_array square), Imshow,
         Print Cant_receive_frame, Release, DestroyAllWindows, Print (Scanner_stopped 1)]) \<and>
   map_option fst (scan_qr_codes None (opened_camera [read_failed])) = Some [] \<and>
   \<not> fst (test_camera (probe_with False (Returns (False, None)))) \<and>
   \<not> fst (test_camera (probe_with True (Returns (False, None))))"
  using
    camera_failure_results
      [of "\<lparr>isOpened = False, reads = []\<rparr>" None "[]" read_failed "[]"
          "probe_with False (Returns (False, None))" None]
    camera_failure_results
      [of "opened_camera [read_ok [code_at ''A'' 1700000000] (- 1), read_failed]" None
          "[read_ok [code_at ''A'' 1700000000] (- 1)]" read_failed "[]"
          "probe_with True (Returns (False, None))" None]
    camera_failure_results
      [of "opened_camera [read_failed]" None "[]" read_failed "[]"
          "probe_with True (Returns (False, None))" None]
  by (simp add: scan_qr_codes_def initial_def process_obj_def quit_def bounding_box_def
      real_time_update_def test_camera_def)

text \<open>
  C5 as stated fails: the camera opens, the first read gives a frame with code A, the
  second read fails. \<^verbatim>\<open>scan_qr_codes\<close> returns the list with A, not the empty list.
\<close>

theorem failed_read_result_not_empty_counterexample:
  "\<not> ret read_failed \<and>
   map_option fst
     (scan_qr_codes None
        (opened_camera [read_ok [code_at ''A'' 1700000000] (- 1), read_failed])) =
     Some [''A''] \<and>
   [''A''] \<noteq> ([] :: string list)"
  by (simp add: scan_qr_codes_def initial_def process_obj_def quit_def)

subsection \<open>The camera probe\<close>

text \<open>
  C6. \<^verbatim>\<open>test_camera\<close> returns \<open>True\<close> only if the camera opened and the one read returned
  \<^verbatim>\<open>ret\<close> true with a frame that is not \<open>None\<close>. It returns \<open>False\<close> when the camera does
  not open, when the frame is \<open>None\<close> and when \<^verbatim>\<open>ret\<close> is false. An exception of any of
  the four calls in the \<^verbatim>\<open>try\<close> block makes it return \<open>False\<close>.
\<close>

theorem test_camera_True_only_if_opened_and_frame:
  "(fst (test_camera p) \<longrightarrow>
      probe_isOpened p = Returns True \<and> (\<exists>img. probe_read p = Returns (True, Some img))) \<and>
   (probe_isOpened p = Returns False \<longrightarrow> \<not> fst (test_camera p)) \<and>
   (\<forall>ok. probe_read p = Returns (ok, None) \<longrightarrow> \<not> fst (test_camera p)) \<and>
   (\<forall>frame. probe_read p = Returns (False, frame) \<longrightarrow> \<not> fst (test_camera p)) \<and>
   (\<forall>e. probe_VideoCapture p = Raises e \<or> probe_isOpened p = Raises e \<or>
      probe_read p = Raises e \<or> probe_release p = Raises e \<longrightarrow>
      \<not> fst (test_camera p)) \<and>
   (probe_VideoCapture p = Returns () \<and> probe_isOpened p = Returns True \<and>
    probe_read p = Returns (True, Some img) \<and> probe_release p = Returns () \<longrightarrow>
      fst (test_camera p))"
proof (intro conjI allI impI)
  show "probe_isOpened p = Returns True" if "fst (test_camera p)"
    using that by (simp add: test_camera_True_iff)
  show "\<exists>img. probe_read p = Returns (True, Some img)" if "fst (test_camera p)"
    using that by (simp add: test_camera_True_iff)
  show "\<not> fst (test_camera p)" if "probe_isOpened p = Returns False"
    using that by (simp add: test_camera_True_iff)
  show "\<not> fst (test_camera p)" if "probe_read p = Returns (ok, None)" for ok
    using that by (simp add: test_camera_True_iff)
  show "\<not> fst (test_camera p)" if "probe_read p = Returns (False, frame)" for frame
    using that by (simp add: test_camera_True_iff)
  show "\<not> fst (test_camera p)"
    if "probe_VideoCapture p = Raises e \<or> probe_isOpened p = Raises e \<or>
      probe_read p = Raises e \<or> probe_release p = Raises e" for e
    using that by (auto simp: test_camera_True_iff)
  show "fst (test_camera p)"
    if "probe_VideoCapture p = Returns () \<and> probe_isOpened p = Returns True \<and>
      probe_read p = Returns (True, Some img) \<and> probe_release p = Returns ()"
    using that by (simp add: test_camera_True_iff)
qed

theorem test_camera_True_only_if_opened_and_frame_witness:
  "fst (test_camera (probe_with True (Returns (True, Some ''frame'')))) \<and>
   \<not> fst (test_camera (probe_with False (Returns (True, Some ''frame'')))) \<and>
   \<not> fst (test_camera (probe_with True (Returns (True, None)))) \<and>
   \<not> fst (test_camera (probe_with True (Returns (False, Some ''frame'')))) \<and>
   \<not> fst (test_camera (probe_with True (Raises ''read failed'')))"
  using
    test_camera_True_only_if_opened_and_frame
      [of "probe_with True (Returns (True, Some ''frame''))" "''frame''"]
    test_camera_True_only_if_opened_and_frame
      [of "probe_with False (Returns (True, Some ''frame''))" "''frame''"]
    test_camera_True_only_if_opened_and_frame
      [of "probe_with True (Returns (True, None))" "''frame''"]
    test_camera_True_only_if_opened_and_frame
      [of "probe_with True (Returns (False, Some ''frame''))" "''frame''"]
    test_camera_True_only_if_opened_and_frame
      [of "probe_with True (Raises ''read failed'')" "''frame''"]
  by (simp add: test_camera_def)

text \<open>
  C7 (as amended). \<^verbatim>\<open>test_camera\<close> calls \<^verbatim>\<open>cap.release()\<close> on the paths where the camera
  opened and \<^verbatim>\<open>cap.read()\<close> returned, whatever it returned, and on no other path: not when
  the camera does not open, and not when \<^verbatim>\<open>cv2.VideoCapture\<close>, \<^verbatim>\<open>isOpened\<close> or \<^verbatim>\<open>read\<close>
  raises.
\<close>

theorem test_camera_releases_iff_read_returned:
  "(Release \<in> set (snd (test_camera p)) \<longleftrightarrow>
      probe_VideoCapture p = Returns () \<and> probe_isOpened p = Returns True \<and>
      (\<exists>r. probe_read p = Returns r)) \<and>
   (fst (test_camera p) \<longrightarrow> Release \<in> set (snd (test_camera p))) \<and>
   (probe_isOpened p = Returns False \<longrightarrow> Release \<notin> set (snd (test_camera p))) \<and>
   (\<forall>e. probe_VideoCapture p = Raises e \<or> probe_isOpened p = Raises e \<or>
      probe_read p = Raises e \<longrightarrow> Release \<notin> set (snd (test_camera p)))"
proof (intro conjI allI impI)
  show "Release \<in> set (snd (test_camera p)) \<longleftrightarrow>
      probe_VideoCapture p = Returns () \<and> probe_isOpened p = Returns True \<and>
      (\<exists>r. probe_read p = Returns r)"
    by (rule test_camera_Release_iff)
  show "Release \<in> set (snd (test_camera p))" if "fst (test_camera p)"
    using that by (auto simp: test_camera_Release_iff test_camera_True_iff)
  show "Release \<notin> set (snd (test_camera p))" if "probe_isOpened p = Returns False"
    using that by (simp add: test_camera_Release_iff)
  show "Release \<notin> set (snd (test_camera p))"
    if "probe_VideoCapture p = Raises e \<or> probe_isOpened p = Raises e \<or>
      probe_read p = Raises e" for e
    using that by (auto simp: test_camera_Release_iff)
qed

theorem test_camera_releases_iff_read_returned_witness:
  "test_camera (probe_with True (Returns (True, Some ''frame''))) = (True, [Release]) \<and>
   test_camera (probe_with True (Returns (False, None))) = (False, [Release]) \<and>
   test_camera (probe_with False (Returns (False, None))) = (False, []) \<and>
   test_camera (probe_with True (Raises ''read failed'')) =
     (False, [Print (Error_probando_camara ''read failed'')])"
  using
    test_camera_releases_iff_read_returned
      [of "probe_with True (Returns (True, Some ''frame''))"]
    test_camera_releases_iff_read_returned [of "probe_with True (Returns (False, None))"]
    test_camera_releases_iff_read_returned [of "probe_with False (Returns (False, None))"]
    test_camera_releases_iff_read_returned [of "probe_with True (Raises ''read failed'')"]
  by (simp add: test_camera_def)

text \<open>
  C7 as stated fails on the two paths it names: when the camera does not open,
  \<^verbatim>\<open>test_camera\<close> returns \<open>False\<close> at line 111 with no call of \<^verbatim>\<open>cap.release()\<close>, and when
  \<^verbatim>\<open>cap.read()\<close> raises, the handler returns \<open>False\<close> with no call of it either.
\<close>

theorem test_camera_no_release_counterexample:
  "test_camera (probe_with False (Returns (False, None))) = (False, []) \<and>
   Release \<notin> set (snd (test_camera (probe_with False (Returns (False, None))))) \<and>
   test_camera (probe_with True (Raises ''read failed'')) =
     (False, [Print (Error_probando_camara ''read failed'')]) \<and>
   Release \<notin> set (snd (test_camera (probe_with True (Raises ''read failed''))))"
  by (simp add: test_camera_def)

end
